theory Spec2Isabelle
  imports Complex_Main "HOL-Library.Word"
begin

unbundle bit_operations_syntax

section \<open>Data model of flipper-lightweight-gen.c\<close>

text \<open>
  The C integer types are words of their width: \<open>uint8_t\<close> is \<open>8 word\<close> and
  \<open>uint32_t\<close> is \<open>32 word\<close>, so \<open>+\<close> and \<open>*\<close> wrap around as in C.
  The C \<open>float\<close> fields and locals are idealised as \<open>real\<close>: arithmetic is exact, there is
  no rounding, no infinity and no NaN. Loop counters are the C \<open>int\<close> variables \<open>x\<close> and
  \<open>y\<close>, which only take the values \<open>0 .. 128\<close>; they are natural numbers here.
\<close>

type_synonym u8 = "8 word"
type_synonym u32 = "32 word"

definition SCREEN_WIDTH :: nat where
  "SCREEN_WIDTH = 128"

definition SCREEN_HEIGHT :: nat where
  "SCREEN_HEIGHT = 64"

record GenerativeState =
  pixels :: "u8 list"
  seed :: u32
  mode :: u8
  gradient_type :: u8
  frequency :: real
  noise_scale :: real
  invert :: bool
  frame_count :: u8

section \<open>Pseudo-random number generator\<close>

text \<open>
  \<open>xorshift32\<close> updates the caller's state through a pointer and returns the new state;
  the model returns the pair (returned value, new state).
\<close>

definition xorshift32 :: "u32 \<Rightarrow> u32 \<times> u32" where
  "xorshift32 st =
     (let st1 = st XOR push_bit 13 st;
          st2 = st1 XOR drop_bit 17 st1;
          st3 = st2 XOR push_bit 5 st2
      in (st3, st3))"

section \<open>Sine table and noise\<close>

definition sine_table :: "int list" where
  "sine_table =
    [0, 6, 12, 18, 24, 30, 36, 41, 46, 50, 54, 57, 60, 62, 63, 64,
     63, 62, 60, 57, 54, 50, 46, 41, 36, 30, 24, 18, 12, 6, 0, -6,
     -12, -18, -24, -30, -36, -41, -46, -50, -54, -57, -60, -62, -63, -64,
     -63, -62, -60, -57, -54, -50, -46, -41, -36, -30, -24, -18, -12, -6, 0, 0, 0, 0]"

text \<open>
  \<open>fast_sin\<close> returns an \<open>int8_t\<close> table entry; every use promotes it to \<open>int\<close>, which is
  the type of the model's result. The index \<open>angle & 63\<close> is always inside the table.
\<close>

definition fast_sin :: "u8 \<Rightarrow> int" where
  "fast_sin angle = sine_table ! unat (angle AND 63)"

definition simple_noise :: "u32 \<Rightarrow> u32 \<Rightarrow> u32 \<Rightarrow> u8" where
  "simple_noise x y sd =
     (let hash = (x * 374761393) + (y * 668265263) + sd;
          hash = (hash XOR drop_bit 13 hash) * 1274126177
      in ucast ((hash XOR drop_bit 16 hash) AND 0xFF))"

section \<open>C arithmetic used by the generators\<close>

text \<open>
  Integer division in C truncates towards zero. A conversion from \<open>float\<close> to an integer
  type truncates towards zero as well; C leaves the conversion undefined when the
  truncated value does not fit the target type, and the model then keeps the low bits.
  \<open>sqrtf\<close>, \<open>atan2f\<close>, \<open>fmodf\<close>, \<open>fmaxf\<close> and \<open>fminf\<close> come from the C library; they are
  modelled by the real functions they approximate.
\<close>

definition c_div :: "int \<Rightarrow> int \<Rightarrow> int" where
  "c_div a b = sgn a * sgn b * (\<bar>a\<bar> div \<bar>b\<bar>)"

definition c_trunc :: "real \<Rightarrow> int" where
  "c_trunc r = (if 0 \<le> r then \<lfloor>r\<rfloor> else \<lceil>r\<rceil>)"

definition float_to_u8 :: "real \<Rightarrow> u8" where
  "float_to_u8 r = word_of_int (c_trunc r)"

definition float_to_u32 :: "real \<Rightarrow> u32" where
  "float_to_u32 r = word_of_int (c_trunc r)"

definition sqrtf :: "real \<Rightarrow> real" where
  "sqrtf r = sqrt r"

definition atan2f :: "real \<Rightarrow> real \<Rightarrow> real" where
  "atan2f b a =
     (if 0 < a then arctan (b / a)
      else if a < 0 \<and> 0 \<le> b then arctan (b / a) + pi
      else if a < 0 then arctan (b / a) - pi
      else if 0 < b then pi / 2
      else if b < 0 then - (pi / 2)
      else 0)"

definition fmodf :: "real \<Rightarrow> real \<Rightarrow> real" where
  "fmodf a b = a - b * of_int (c_trunc (a / b))"

section \<open>Gradient generators\<close>

text \<open>
  \<open>generate_gradient\<close> is modelled in three parts that follow the source top to bottom:
  \<open>gradient_switch\<close> is the \<open>switch\<close> over \<open>gradient_type\<close> with its \<open>default\<close> branch,
  \<open>gradient_value\<close> adds the noise overlay, the clamp and the inversion, and
  \<open>generate_gradient\<close> is the final conversion \<open>(uint8_t)(value * 255)\<close>.
\<close>

definition gradient_switch :: "u8 \<Rightarrow> u8 \<Rightarrow> GenerativeState \<Rightarrow> real" where
  "gradient_switch x y state =
     (let nx = real (unat x) / real SCREEN_WIDTH;
          ny = real (unat y) / real SCREEN_HEIGHT;
          t = gradient_type state
      in if t = 0 then nx
         else if t = 1 then ny
         else if t = 2 then
           (let dx = nx - 0.5; dy = ny - 0.5
            in sqrtf (dx * dx + dy * dy) * 1.414)
         else if t = 3 then (nx + ny) / 2
         else if t = 4 then
           real_of_int (fast_sin (float_to_u8 (nx * 64 * frequency state)) + 64) / 128
         else if t = 5 then
           real_of_int (fast_sin (float_to_u8 (ny * 64 * frequency state + 16)) + 64) / 128
         else if t = 6 then
           (let wave1 = fast_sin (float_to_u8 (nx * 32 * frequency state));
                wave2 = fast_sin (float_to_u8 (ny * 32 * frequency state))
            in real_of_int (c_div (wave1 * wave2) 64 + 64) / 128)
         else if t = 7 then
           (let check_x = float_to_u8 (nx * 8 * frequency state) AND 1;
                check_y = float_to_u8 (ny * 8 * frequency state) AND 1
            in if check_x XOR check_y \<noteq> 0 then 1 else 0)
         else if t = 8 then
           real (unat (simple_noise (ucast x) (ucast y) (seed state))) / 255
         else if t = 9 then
           (let dx = nx - 0.5; dy = ny - 0.5;
                angle = atan2f dy dx;
                dist = sqrtf (dx * dx + dy * dy)
            in fmodf (angle + dist * 10) 6.28 / 6.28)
         else nx)"

definition gradient_value :: "u8 \<Rightarrow> u8 \<Rightarrow> GenerativeState \<Rightarrow> real" where
  "gradient_value x y state =
     (let v = gradient_switch x y state;
          v = (if noise_scale state > 0 then
                 (let noise = real (unat (simple_noise
                                (float_to_u32 (real (unat x) * noise_scale state))
                                (float_to_u32 (real (unat y) * noise_scale state))
                                (seed state))) / 255
                  in v * 0.7 + noise * 0.3)
               else v);
          v = (if v < 0 then 0 else v);
          v = (if v > 1 then 1 else v);
          v = (if invert state then 1 - v else v)
      in v)"

definition generate_gradient :: "u8 \<Rightarrow> u8 \<Rightarrow> GenerativeState \<Rightarrow> u8" where
  "generate_gradient x y state = float_to_u8 (gradient_value x y state * 255)"

section \<open>Floyd-Steinberg dithering\<close>

text \<open>
  \<open>diffuse\<close> is the statement pair repeated four times in \<open>apply_dither\<close>: read the
  neighbour, add \<open>(error * k) / 16\<close> in \<open>int\<close>, clamp to \<open>0 .. 255\<close> and store it back.
  Every index it is called with is inside the raster, by the bounds checks around it.
\<close>

definition clamp_u8 :: "int \<Rightarrow> u8" where
  "clamp_u8 new_val = (if new_val < 0 then 0 else if new_val > 255 then 255 else word_of_int new_val)"

definition diffuse :: "u8 list \<Rightarrow> nat \<Rightarrow> int \<Rightarrow> int \<Rightarrow> u8 list" where
  "diffuse px i err k =
     (let new_val = uint (px ! i) + c_div (err * k) 16
      in px[i := clamp_u8 new_val])"

definition dither_pixel :: "nat \<Rightarrow> nat \<Rightarrow> u8 list \<Rightarrow> u8 list" where
  "dither_pixel y x px =
     (let idx = y * SCREEN_WIDTH + x;
          old_pixel = px ! idx;
          new_pixel = (if old_pixel > 127 then 255 else 0);
          px = px[idx := new_pixel];
          err = uint old_pixel - uint new_pixel;
          px = (if x + 1 < SCREEN_WIDTH
                then diffuse px (y * SCREEN_WIDTH + (x + 1)) err 7 else px);
          px = (if y + 1 < SCREEN_HEIGHT then
                  (let px = (if x > 0
                             then diffuse px ((y + 1) * SCREEN_WIDTH + (x - 1)) err 3 else px);
                       px = diffuse px ((y + 1) * SCREEN_WIDTH + x) err 5;
                       px = (if x + 1 < SCREEN_WIDTH
                             then diffuse px ((y + 1) * SCREEN_WIDTH + (x + 1)) err 1 else px)
                   in px)
                else px)
      in px)"

function dither_cols :: "nat \<Rightarrow> nat \<Rightarrow> u8 list \<Rightarrow> u8 list" where
  "dither_cols y x px =
     (if x < SCREEN_WIDTH then dither_cols y (x + 1) (dither_pixel y x px) else px)"
  by pat_completeness auto
termination
  by (relation "measure (\<lambda>(y, x, px). SCREEN_WIDTH - x)") auto

declare dither_cols.simps [simp del]

function dither_rows :: "nat \<Rightarrow> u8 list \<Rightarrow> u8 list" where
  "dither_rows y px =
     (if y < SCREEN_HEIGHT then dither_rows (y + 1) (dither_cols y 0 px) else px)"
  by pat_completeness auto
termination
  by (relation "measure (\<lambda>(y, px). SCREEN_HEIGHT - y)") auto

declare dither_rows.simps [simp del]

definition apply_dither :: "GenerativeState \<Rightarrow> GenerativeState" where
  "apply_dither state = state\<lparr>pixels := dither_rows 0 (pixels state)\<rparr>"

section \<open>Frame generation and parameter evolution\<close>

function gradient_cols :: "nat \<Rightarrow> nat \<Rightarrow> GenerativeState \<Rightarrow> GenerativeState" where
  "gradient_cols y x state =
     (if x < SCREEN_WIDTH
      then gradient_cols y (x + 1)
             (state\<lparr>pixels := (pixels state)
                [y * SCREEN_WIDTH + x := generate_gradient (of_nat x) (of_nat y) state]\<rparr>)
      else state)"
  by pat_completeness auto
termination
  by (relation "measure (\<lambda>(y, x, state). SCREEN_WIDTH - x)") auto

declare gradient_cols.simps [simp del]

function gradient_rows :: "nat \<Rightarrow> GenerativeState \<Rightarrow> GenerativeState" where
  "gradient_rows y state =
     (if y < SCREEN_HEIGHT then gradient_rows (y + 1) (gradient_cols y 0 state) else state)"
  by pat_completeness auto
termination
  by (relation "measure (\<lambda>(y, state). SCREEN_HEIGHT - y)") auto

declare gradient_rows.simps [simp del]

text \<open>
  \<open>evolve\<close> is the body of \<open>if(state->frame_count % 30 == 0)\<close>. It returns the new state
  together with the final value of the local \<open>rng_state\<close>, which records how many draws
  the block made. The draw for the new gradient type is made only inside the first
  \<open>if\<close>.
\<close>

definition evolve :: "GenerativeState \<Rightarrow> GenerativeState \<times> u32" where
  "evolve state =
     (let rng_state = seed state + ucast (frame_count state);
          (r, rng_state) = xorshift32 rng_state;
          (state, rng_state) =
            (if r mod 100 < 20
             then (let (r, rng_state) = xorshift32 rng_state
                   in (state\<lparr>gradient_type := ucast (r mod 10)\<rparr>, rng_state))
             else (state, rng_state));
          (r, rng_state) = xorshift32 rng_state;
          state = state\<lparr>frequency := 0.5 + real (unat (r mod 100)) / 50\<rparr>;
          (r, rng_state) = xorshift32 rng_state;
          state = state\<lparr>noise_scale := real (unat (r mod 50)) / 1000\<rparr>;
          (r, rng_state) = xorshift32 rng_state;
          state = (if r mod 100 < 10 then state\<lparr>invert := \<not> invert state\<rparr> else state)
      in (state, rng_state))"

definition generate_frame :: "GenerativeState \<Rightarrow> GenerativeState" where
  "generate_frame state =
     (let state = gradient_rows 0 state;
          state = apply_dither state;
          state = state\<lparr>frame_count := frame_count state + 1\<rparr>
      in if unat (frame_count state) mod 30 = 0 then fst (evolve state) else state)"

section \<open>Input handling and start-up\<close>

text \<open>
  The input event types and keys are the enumerations of the host's input service. The
  value of \<open>furi_get_tick()\<close> is a parameter. \<open>input_callback\<close> acts on \<open>app->state\<close>
  only, so the model takes and returns the state.
\<close>

datatype InputType =
  InputTypePress | InputTypeRelease | InputTypeShort | InputTypeLong | InputTypeRepeat

datatype InputKey =
  InputKeyUp | InputKeyDown | InputKeyRight | InputKeyLeft | InputKeyOk | InputKeyBack
  | InputKeyMAX

record InputEvent =
  ev_type :: InputType
  ev_key :: InputKey

definition input_callback :: "InputEvent \<Rightarrow> u32 \<Rightarrow> GenerativeState \<Rightarrow> GenerativeState" where
  "input_callback input_event tick state =
     (if ev_type input_event = InputTypePress then
        (case ev_key input_event of
           InputKeyOk \<Rightarrow>
             (let state = state\<lparr>seed := tick\<rparr>;
                  state = state\<lparr>gradient_type := ucast (seed state mod 10)\<rparr>
              in state\<lparr>frequency := 0.5 + real (unat (seed state mod 100)) / 50\<rparr>)
         | InputKeyUp \<Rightarrow>
             state\<lparr>gradient_type := of_nat ((unat (gradient_type state) + 1) mod 10)\<rparr>
         | InputKeyDown \<Rightarrow>
             state\<lparr>gradient_type := of_nat ((unat (gradient_type state) + 9) mod 10)\<rparr>
         | InputKeyLeft \<Rightarrow> state\<lparr>frequency := max 0.1 (frequency state - 0.1)\<rparr>
         | InputKeyRight \<Rightarrow> state\<lparr>frequency := min 4.0 (frequency state + 0.1)\<rparr>
         | InputKeyBack \<Rightarrow> state
         | InputKeyMAX \<Rightarrow> state)
      else state)"

text \<open>
  \<open>flipper_gen_app_alloc\<close> sets the fields of a freshly allocated state, whose raster
  holds whatever the allocator left there (the parameter \<open>px\<close>), and generates the
  initial frame.
\<close>

definition default_state :: "u32 \<Rightarrow> u8 list \<Rightarrow> GenerativeState" where
  "default_state tick px =
     \<lparr>pixels = px, seed = tick, mode = 0, gradient_type = 0, frequency = 1.0,
      noise_scale = 0.05, invert = False, frame_count = 0\<rparr>"

definition flipper_gen_app_alloc :: "u32 \<Rightarrow> u8 list \<Rightarrow> GenerativeState" where
  "flipper_gen_app_alloc tick px = generate_frame (default_state tick px)"

section \<open>Predicates used in the statements\<close>

text \<open>The first \<open>k\<close> raster entries, in row-major order, are black or white.\<close>

definition binary_upto :: "nat \<Rightarrow> u8 list \<Rightarrow> bool" where
  "binary_upto k px = (\<forall>i<k. px ! i = 0 \<or> px ! i = 255)"

text \<open>
  \<open>rng_after n st\<close> is the generator state after \<open>n\<close> calls of \<open>xorshift32\<close> starting from
  \<open>st\<close>. As \<open>xorshift32\<close> returns its new state, it is also the value of the \<open>n\<close>-th draw.
\<close>

fun rng_after :: "nat \<Rightarrow> u32 \<Rightarrow> u32" where
  "rng_after 0 st = st"
| "rng_after (Suc n) st = rng_after n (snd (xorshift32 st))"

text \<open>
  A state with the start-up parameters of \<open>flipper_gen_app_alloc\<close>, a raster of the right
  size, and a chosen seed and frame counter; used for concrete inputs.
\<close>

definition tick_state :: "u32 \<Rightarrow> u8 \<Rightarrow> GenerativeState" where
  "tick_state sd fc = (default_state sd (replicate (SCREEN_WIDTH * SCREEN_HEIGHT) 0))\<lparr>frame_count := fc\<rparr>"

text \<open>
  The ranges that the parameters are to stay in: \<open>frequency\<close> in \<open>[0.1, 4.0]\<close> and
  \<open>noise_scale\<close> in \<open>[0, 1]\<close>.
\<close>

definition param_inv :: "GenerativeState \<Rightarrow> bool" where
  "param_inv s = (0.1 \<le> frequency s \<and> frequency s \<le> 4.0 \<and> 0 \<le> noise_scale s \<and> noise_scale s \<le> 1)"

text \<open>
  The host calls \<open>timer_callback\<close>, which generates a frame, and \<open>input_callback\<close>. A run
  of the application after start-up is a list of such events.
\<close>

datatype Event = TimerTick | Input InputEvent u32

fun step :: "Event \<Rightarrow> GenerativeState \<Rightarrow> GenerativeState" where
  "step TimerTick s = generate_frame s"
| "step (Input input_event tick) s = input_callback input_event tick s"

definition run :: "Event list \<Rightarrow> GenerativeState \<Rightarrow> GenerativeState" where
  "run evs s = foldl (\<lambda>s e. step e s) s evs"

text \<open>
  Two states have the same generation parameters: every field that \<open>generate_frame\<close>
  reads, apart from the raster it overwrites. \<open>agree_upto k\<close> adds that the two rasters
  have the same size and the same first \<open>k\<close> entries.
\<close>

definition same_params :: "GenerativeState \<Rightarrow> GenerativeState \<Rightarrow> bool" where
  "same_params s t =
     (seed s = seed t \<and> gradient_type s = gradient_type t \<and> frequency s = frequency t
      \<and> noise_scale s = noise_scale t \<and> invert s = invert t \<and> frame_count s = frame_count t)"

definition agree_upto :: "nat \<Rightarrow> GenerativeState \<Rightarrow> GenerativeState \<Rightarrow> bool" where
  "agree_upto k s t =
     (same_params s t \<and> length (pixels s) = length (pixels t)
      \<and> (\<forall>i<k. pixels s ! i = pixels t ! i))"

section \<open>Properties of the generator\<close>

lemma word_xor_zero_eq:
  fixes w v :: u32
  assumes "w XOR v = 0"
  shows "w = v"
  using assms by (simp add: bit_eq_iff bit_xor_iff)

lemma xor_push_bit_zero:
  fixes w :: u32
  assumes "w XOR push_bit k w = 0" and "0 < k"
  shows "w = 0"
proof -
  from assms(1) have eq: "w = push_bit k w"
    by (rule word_xor_zero_eq)
  have "\<not> bit w n" for n
  proof (induction n rule: less_induct)
    case (less n)
    show ?case
    proof
      assume b: "bit w n"
      then have "bit (push_bit k w) n" using eq by simp
      then have "k \<le> n" and "bit w (n - k)"
        by (simp_all add: bit_push_bit_iff)
      moreover from \<open>k \<le> n\<close> \<open>0 < k\<close> have "n - k < n" by simp
      ultimately show False using less.IH by blast
    qed
  qed
  then show ?thesis
    by (simp add: bit_eq_iff)
qed

lemma xor_drop_bit_zero:
  fixes w :: u32
  assumes "w XOR drop_bit k w = 0" and "0 < k"
  shows "w = 0"
proof -
  from assms(1) have eq: "w = drop_bit k w"
    by (rule word_xor_zero_eq)
  have "\<not> bit w n" if "32 \<le> n + m" for n m
    using that
  proof (induction m arbitrary: n)
    case 0
    then show ?case
      by (auto dest: bit_imp_le_length)
  next
    case (Suc m)
    show ?case
    proof
      assume "bit w n"
      then have "bit (drop_bit k w) n" using eq by simp
      then have "bit w (k + n)"
        by (simp add: bit_drop_bit_eq)
      moreover from Suc.prems \<open>0 < k\<close> have "32 \<le> (k + n) + m" by simp
      ultimately show False using Suc.IH by blast
    qed
  qed
  then have "\<not> bit w n" for n
    by (metis le_add2)
  then show ?thesis
    by (simp add: bit_eq_iff)
qed

text \<open>
  Claim C7. The generator applies the three steps XOR with left shift by 13, XOR with
  right shift by 17 and XOR with left shift by 5, in that order, to the running state and
  returns the new state. From a nonzero state both the returned value and the new state
  are nonzero, and the state zero is a fixed point.
\<close>

theorem xorshift32_steps_nonzero:
  "xorshift32 st =
     (let a = st XOR push_bit 13 st;
          b = a XOR drop_bit 17 a;
          c = b XOR push_bit 5 b
      in (c, c))
   \<and> (st \<noteq> 0 \<longrightarrow> fst (xorshift32 st) \<noteq> 0 \<and> snd (xorshift32 st) \<noteq> 0)
   \<and> xorshift32 0 = (0, 0)"
proof (intro conjI impI)
  show "xorshift32 st =
     (let a = st XOR push_bit 13 st;
          b = a XOR drop_bit 17 a;
          c = b XOR push_bit 5 b
      in (c, c))"
    by (simp add: xorshift32_def)
next
  show "xorshift32 0 = (0, 0)"
    by (simp add: xorshift32_def)
next
  assume nz: "st \<noteq> 0"
  define a where "a = st XOR push_bit 13 st"
  define b where "b = a XOR drop_bit 17 a"
  define c where "c = b XOR push_bit 5 b"
  have "a \<noteq> 0" using nz xor_push_bit_zero [of st 13] by (auto simp: a_def)
  then have "b \<noteq> 0" using xor_drop_bit_zero [of a 17] by (auto simp: b_def)
  then have "c \<noteq> 0" using xor_push_bit_zero [of b 5] by (auto simp: c_def)
  moreover have "xorshift32 st = (c, c)"
    by (simp add: xorshift32_def a_def b_def c_def Let_def)
  ultimately show "fst (xorshift32 st) \<noteq> 0" and "snd (xorshift32 st) \<noteq> 0"
    by simp_all
qed

theorem xorshift32_steps_nonzero_witness:
  "(1 :: u32) \<noteq> 0 \<and> fst (xorshift32 1) \<noteq> 0 \<and> snd (xorshift32 1) \<noteq> 0
   \<and> xorshift32 1 = (270369, 270369)"
proof -
  have "xorshift32 1 = (270369, 270369)"
    by (simp add: xorshift32_def Let_def)
  with xorshift32_steps_nonzero [of 1] show ?thesis
    by simp
qed

section \<open>The quantizer\<close>

lemma length_diffuse [simp]: "length (diffuse px i err k) = length px"
  by (simp add: diffuse_def Let_def)

lemma nth_diffuse_other: "j \<noteq> i \<Longrightarrow> diffuse px i err k ! j = px ! j"
  by (simp add: diffuse_def Let_def)

lemma length_dither_pixel [simp]: "length (dither_pixel y x px) = length px"
  by (simp add: dither_pixel_def Let_def)

lemma dither_pixel_upto:
  assumes "j \<le> y * SCREEN_WIDTH + x"
  shows "dither_pixel y x px ! j =
    (px[y * SCREEN_WIDTH + x := (if px ! (y * SCREEN_WIDTH + x) > 127 then 255 else 0)]) ! j"
  using assms unfolding dither_pixel_def Let_def
  by (simp add: nth_diffuse_other SCREEN_WIDTH_def)


lemma dither_pixel_binary:
  assumes "y * SCREEN_WIDTH + x < length px"
    and "binary_upto (y * SCREEN_WIDTH + x) px"
  shows "binary_upto (Suc (y * SCREEN_WIDTH + x)) (dither_pixel y x px)"
  unfolding binary_upto_def
proof (intro allI impI)
  fix i assume "i < Suc (y * SCREEN_WIDTH + x)"
  then have le: "i \<le> y * SCREEN_WIDTH + x" by simp
  show "dither_pixel y x px ! i = 0 \<or> dither_pixel y x px ! i = 255"
  proof (cases "i = y * SCREEN_WIDTH + x")
    case True
    then show ?thesis using assms(1) by (simp add: dither_pixel_upto)
  next
    case False
    with le have "i < y * SCREEN_WIDTH + x" by simp
    with assms(2) False show ?thesis
      by (simp add: dither_pixel_upto [OF le] binary_upto_def)
  qed
qed

lemma dither_cols_binary:
  assumes "x \<le> SCREEN_WIDTH" and "y < SCREEN_HEIGHT"
    and "length px = SCREEN_WIDTH * SCREEN_HEIGHT"
    and "binary_upto (y * SCREEN_WIDTH + x) px"
  shows "binary_upto (y * SCREEN_WIDTH + SCREEN_WIDTH) (dither_cols y x px)
         \<and> length (dither_cols y x px) = SCREEN_WIDTH * SCREEN_HEIGHT"
  using assms
proof (induction y x px rule: dither_cols.induct)
  case (1 y x px)
  show ?case
  proof (cases "x < SCREEN_WIDTH")
    case True
    have idx: "y * SCREEN_WIDTH + x < length px"
      using True "1.prems"(2,3) by (simp add: SCREEN_WIDTH_def SCREEN_HEIGHT_def)
    have "binary_upto (y * SCREEN_WIDTH + (x + 1)) (dither_pixel y x px)"
      using dither_pixel_binary [OF idx "1.prems"(4)] by simp
    with "1.IH" [OF True] True "1.prems" show ?thesis
      by (simp add: dither_cols.simps [of y x px])
  next
    case False
    then have "dither_cols y x px = px"
      by (simp add: dither_cols.simps [of y x px])
    moreover from False "1.prems" have "x = SCREEN_WIDTH" by simp
    ultimately show ?thesis using "1.prems" by simp
  qed
qed

lemma dither_rows_binary:
  assumes "y \<le> SCREEN_HEIGHT"
    and "length px = SCREEN_WIDTH * SCREEN_HEIGHT"
    and "binary_upto (y * SCREEN_WIDTH) px"
  shows "binary_upto (SCREEN_HEIGHT * SCREEN_WIDTH) (dither_rows y px)
         \<and> length (dither_rows y px) = SCREEN_WIDTH * SCREEN_HEIGHT"
  using assms
proof (induction y px rule: dither_rows.induct)
  case (1 y px)
  show ?case
  proof (cases "y < SCREEN_HEIGHT")
    case True
    have "binary_upto (y * SCREEN_WIDTH + SCREEN_WIDTH) (dither_cols y 0 px)
         \<and> length (dither_cols y 0 px) = SCREEN_WIDTH * SCREEN_HEIGHT"
      using dither_cols_binary [of 0 y px] True "1.prems" by simp
    then have "binary_upto ((y + 1) * SCREEN_WIDTH) (dither_cols y 0 px)"
      and "length (dither_cols y 0 px) = SCREEN_WIDTH * SCREEN_HEIGHT"
      by (simp_all add: add.commute)
    with "1.IH" [OF True] True show ?thesis
      by (simp add: dither_rows.simps [of y px])
  next
    case False
    then have "dither_rows y px = px"
      by (simp add: dither_rows.simps [of y px])
    moreover from False "1.prems" have "y = SCREEN_HEIGHT" by simp
    ultimately show ?thesis using "1.prems" by simp
  qed
qed

text \<open>
  Claim C1. After \<open>apply_dither\<close> every entry of the 128 x 64 raster is 0 or 255. The
  reason is the third conjunct: processing the pixel at \<open>(x, y)\<close> leaves every raster
  entry before it in row-major order as it was, so a thresholded pixel is never written
  again.
\<close>

theorem apply_dither_binary:
  assumes "length (pixels state) = SCREEN_WIDTH * SCREEN_HEIGHT"
  shows "(\<forall>p \<in> set (pixels (apply_dither state)). p = 0 \<or> p = 255)
    \<and> length (pixels (apply_dither state)) = SCREEN_WIDTH * SCREEN_HEIGHT
    \<and> (\<forall>y x px i. i < y * SCREEN_WIDTH + x \<longrightarrow> dither_pixel y x px ! i = px ! i)"
proof -
  have "binary_upto 0 (pixels state)" by (simp add: binary_upto_def)
  then have *: "binary_upto (SCREEN_HEIGHT * SCREEN_WIDTH) (dither_rows 0 (pixels state))
         \<and> length (dither_rows 0 (pixels state)) = SCREEN_WIDTH * SCREEN_HEIGHT"
    using dither_rows_binary [of 0 "pixels state"] assms by simp
  have "p = 0 \<or> p = 255" if "p \<in> set (dither_rows 0 (pixels state))" for p
  proof -
    from that obtain i where "i < length (dither_rows 0 (pixels state))"
      and "p = dither_rows 0 (pixels state) ! i"
      by (auto simp: in_set_conv_nth)
    with * show ?thesis by (simp add: binary_upto_def mult.commute)
  qed
  moreover have "dither_pixel y x px ! i = px ! i" if "i < y * SCREEN_WIDTH + x" for y x px i
    using that by (simp add: dither_pixel_upto)
  ultimately show ?thesis using *
    by (simp add: apply_dither_def)
qed


theorem apply_dither_binary_witness:
  "length (pixels (default_state 42 (replicate (SCREEN_WIDTH * SCREEN_HEIGHT) 200)))
     = SCREEN_WIDTH * SCREEN_HEIGHT
   \<and> list_all (\<lambda>p. p = 0 \<or> p = 255)
        (pixels (apply_dither
          (default_state 42 (replicate (SCREEN_WIDTH * SCREEN_HEIGHT) 200))))
   \<and> length (pixels (apply_dither
          (default_state 42 (replicate (SCREEN_WIDTH * SCREEN_HEIGHT) 200))))
       = SCREEN_WIDTH * SCREEN_HEIGHT"
proof -
  have len: "length (pixels (default_state 42 (replicate (SCREEN_WIDTH * SCREEN_HEIGHT) 200)))
     = SCREEN_WIDTH * SCREEN_HEIGHT"
    by (simp add: default_state_def)
  from apply_dither_binary [OF len] len show ?thesis
    unfolding list_all_iff by blast
qed

section \<open>Frame generation\<close>

lemma gradient_cols_fields:
  "seed (gradient_cols y x s) = seed s \<and> mode (gradient_cols y x s) = mode s
   \<and> gradient_type (gradient_cols y x s) = gradient_type s
   \<and> frequency (gradient_cols y x s) = frequency s
   \<and> noise_scale (gradient_cols y x s) = noise_scale s
   \<and> invert (gradient_cols y x s) = invert s
   \<and> frame_count (gradient_cols y x s) = frame_count s
   \<and> length (pixels (gradient_cols y x s)) = length (pixels s)"
proof (induction y x s rule: gradient_cols.induct)
  case (1 y x s)
  show ?case
  proof (cases "x < SCREEN_WIDTH")
    case True
    with "1.IH" [OF True] show ?thesis
      by (simp add: gradient_cols.simps [of y x s])
  next
    case False
    then show ?thesis by (simp add: gradient_cols.simps [of y x s])
  qed
qed

lemma gradient_rows_fields:
  "seed (gradient_rows y s) = seed s \<and> mode (gradient_rows y s) = mode s
   \<and> gradient_type (gradient_rows y s) = gradient_type s
   \<and> frequency (gradient_rows y s) = frequency s
   \<and> noise_scale (gradient_rows y s) = noise_scale s
   \<and> invert (gradient_rows y s) = invert s
   \<and> frame_count (gradient_rows y s) = frame_count s
   \<and> length (pixels (gradient_rows y s)) = length (pixels s)"
proof (induction y s rule: gradient_rows.induct)
  case (1 y s)
  show ?case
  proof (cases "y < SCREEN_HEIGHT")
    case True
    with "1.IH" [OF True] show ?thesis
      by (simp add: gradient_rows.simps [of y s] gradient_cols_fields)
  next
    case False
    then show ?thesis by (simp add: gradient_rows.simps [of y s])
  qed
qed

lemma evolve_fields:
  "seed (fst (evolve s)) = seed s \<and> mode (fst (evolve s)) = mode s
   \<and> frame_count (fst (evolve s)) = frame_count s
   \<and> pixels (fst (evolve s)) = pixels s"
  by (simp add: evolve_def Let_def split: prod.splits)

lemma frame_count_generate_frame:
  "frame_count (generate_frame s) = frame_count s + 1"
  by (simp add: generate_frame_def Let_def evolve_fields apply_dither_def gradient_rows_fields)

lemma generate_frame_no_tick:
  assumes "unat (frame_count s + 1) mod 30 \<noteq> 0"
  shows "seed (generate_frame s) = seed s
    \<and> mode (generate_frame s) = mode s
    \<and> gradient_type (generate_frame s) = gradient_type s
    \<and> frequency (generate_frame s) = frequency s
    \<and> noise_scale (generate_frame s) = noise_scale s
    \<and> invert (generate_frame s) = invert s"
  using assms
  by (simp add: generate_frame_def Let_def apply_dither_def gradient_rows_fields)

lemma generate_frame_tick:
  assumes "unat (frame_count s + 1) mod 30 = 0"
  shows "generate_frame s =
    fst (evolve ((apply_dither (gradient_rows 0 s))\<lparr>frame_count := frame_count s + 1\<rparr>))"
  using assms
  by (simp add: generate_frame_def Let_def apply_dither_def gradient_rows_fields)

lemma tick_state_fields:
  "seed (tick_state sd fc) = sd" "frame_count (tick_state sd fc) = fc"
  "gradient_type (tick_state sd fc) = 0" "frequency (tick_state sd fc) = 1"
  "noise_scale (tick_state sd fc) = 0.05" "invert (tick_state sd fc) = False"
  "mode (tick_state sd fc) = 0"
  "length (pixels (tick_state sd fc)) = SCREEN_WIDTH * SCREEN_HEIGHT"
  by (simp_all add: tick_state_def default_state_def)

text \<open>
  Claim C2. When the incremented \<open>frame_count\<close> is not a multiple of 30, \<open>generate_frame\<close>
  leaves \<open>seed\<close>, \<open>gradient_type\<close>, \<open>frequency\<close>, \<open>noise_scale\<close> and \<open>invert\<close> (and the
  unused \<open>mode\<close>) unchanged; the parameters are perturbed only on calls where the
  incremented counter is a multiple of 30.
\<close>

theorem generate_frame_keeps_parameters:
  assumes "unat (frame_count s + 1) mod 30 \<noteq> 0"
  shows "seed (generate_frame s) = seed s
    \<and> gradient_type (generate_frame s) = gradient_type s
    \<and> frequency (generate_frame s) = frequency s
    \<and> noise_scale (generate_frame s) = noise_scale s
    \<and> invert (generate_frame s) = invert s
    \<and> mode (generate_frame s) = mode s
    \<and> frame_count (generate_frame s) = frame_count s + 1"
  using generate_frame_no_tick [OF assms] frame_count_generate_frame [of s]
  by simp

theorem generate_frame_keeps_parameters_witness:
  "unat (frame_count (tick_state 42 7) + 1) mod 30 \<noteq> 0
   \<and> seed (generate_frame (tick_state 42 7)) = 42
   \<and> gradient_type (generate_frame (tick_state 42 7)) = 0
   \<and> frequency (generate_frame (tick_state 42 7)) = 1
   \<and> noise_scale (generate_frame (tick_state 42 7)) = 0.05
   \<and> invert (generate_frame (tick_state 42 7)) = False
   \<and> frame_count (generate_frame (tick_state 42 7)) = 8"
proof -
  have h: "unat (frame_count (tick_state 42 7) + 1) mod 30 \<noteq> 0"
    by (simp add: tick_state_fields)
  from generate_frame_keeps_parameters [OF h] h show ?thesis
    by (simp add: tick_state_fields)
qed

section \<open>The frame counter\<close>

lemma frame_count_iterate:
  "frame_count ((generate_frame ^^ n) s) = frame_count s + of_nat n"
  by (induction n) (simp_all add: frame_count_generate_frame)

text \<open>
  Claim C4, as amended. \<open>frame_count\<close> is an 8-bit counter: each call of \<open>generate_frame\<close>
  adds one modulo 256. It is strictly greater after the call exactly when it was below
  255; at 255 it wraps to 0, and after 256 calls it is back at its old value.
\<close>

theorem frame_count_wraps:
  "frame_count (generate_frame s) = frame_count s + 1
   \<and> unat (frame_count (generate_frame s)) = (unat (frame_count s) + 1) mod 256
   \<and> (frame_count s \<noteq> 255 \<longrightarrow> frame_count s < frame_count (generate_frame s))
   \<and> (frame_count s = 255 \<longrightarrow> frame_count (generate_frame s) = 0)
   \<and> frame_count ((generate_frame ^^ n) s) = frame_count s + of_nat n
   \<and> frame_count ((generate_frame ^^ 256) s) = frame_count s"
proof (intro conjI impI)
  show "frame_count (generate_frame s) = frame_count s + 1"
    by (rule frame_count_generate_frame)
  show "unat (frame_count (generate_frame s)) = (unat (frame_count s) + 1) mod 256"
    by (simp add: frame_count_generate_frame unat_word_ariths)
  show "frame_count s < frame_count (generate_frame s)" if "frame_count s \<noteq> 255"
  proof -
    have "unat (frame_count s) < 256"
      using unsigned_less [of "frame_count s", where ?'a = nat] by simp
    moreover have "unat (frame_count s) \<noteq> 255"
      using that by (simp add: word_unat_eq_iff)
    ultimately have "unat (frame_count s + 1) = unat (frame_count s) + 1"
      by (simp add: unat_word_ariths)
    then show ?thesis
      by (simp add: frame_count_generate_frame word_less_nat_alt)
  qed
  show "frame_count (generate_frame s) = 0" if "frame_count s = 255"
    using that by (simp add: frame_count_generate_frame)
  show "frame_count ((generate_frame ^^ n) s) = frame_count s + of_nat n"
    by (rule frame_count_iterate)
  show "frame_count ((generate_frame ^^ 256) s) = frame_count s"
    by (simp add: frame_count_iterate)
qed


theorem frame_count_wraps_witness:
  "frame_count (tick_state 42 7) \<noteq> 255
   \<and> frame_count (tick_state 42 7) < frame_count (generate_frame (tick_state 42 7))
   \<and> frame_count (tick_state 42 255) = 255
   \<and> frame_count (generate_frame (tick_state 42 255)) = 0"
  using frame_count_wraps [of "tick_state 42 7" 0] frame_count_wraps [of "tick_state 42 255" 0]
  by (simp add: tick_state_fields)

text \<open>
  Claim C4 as stated fails: from \<open>frame_count = 255\<close> the value after the call is 0, which
  is not greater.
\<close>

theorem frame_count_monotone_counterexample:
  "\<not> frame_count (tick_state 42 255) < frame_count (generate_frame (tick_state 42 255))"
  by (simp add: frame_count_generate_frame tick_state_fields)

section \<open>Parameter evolution\<close>

lemma xorshift32_zero: "xorshift32 0 = (0, 0)"
  by (simp add: xorshift32_def)

lemma rng_after_zero: "rng_after n 0 = 0"
  by (induction n) (simp_all add: xorshift32_zero)

lemma evolve_zero:
  assumes "seed s + ucast (frame_count s) = 0"
  shows "fst (evolve s) = s\<lparr>gradient_type := 0, frequency := 0.5, noise_scale := 0, invert := \<not> invert s\<rparr>
     \<and> snd (evolve s) = 0"
  using assms by (simp add: evolve_def xorshift32_zero)

lemma fst_xorshift32: "fst (xorshift32 st) = snd (xorshift32 st)"
  by (simp add: xorshift32_def Let_def)

lemma rng_after_numerals:
  "rng_after 1 r = snd (xorshift32 r)"
  "rng_after 2 r = snd (xorshift32 (snd (xorshift32 r)))"
  "rng_after 3 r = snd (xorshift32 (snd (xorshift32 (snd (xorshift32 r)))))"
  "rng_after 4 r = snd (xorshift32 (snd (xorshift32 (snd (xorshift32 (snd (xorshift32 r)))))))"
  "rng_after 5 r = snd (xorshift32 (snd (xorshift32 (snd (xorshift32 (snd (xorshift32 (snd (xorshift32 r)))))))))"
  by (simp_all add: eval_nat_numeral)

lemma evolve_unfold:
  "evolve s =
    (let r0 = seed s + ucast (frame_count s); d = (\<lambda>n. rng_after n r0) in
     if d 1 mod 100 < 20
     then (s\<lparr>gradient_type := ucast (d 2 mod 10),
             frequency := 0.5 + real (unat (d 3 mod 100)) / 50,
             noise_scale := real (unat (d 4 mod 50)) / 1000,
             invert := (if d 5 mod 100 < 10 then \<not> invert s else invert s)\<rparr>, d 5)
     else (s\<lparr>frequency := 0.5 + real (unat (d 2 mod 100)) / 50,
             noise_scale := real (unat (d 3 mod 50)) / 1000,
             invert := (if d 4 mod 100 < 10 then \<not> invert s else invert s)\<rparr>, d 4))"
  by (simp add: evolve_def Let_def split_def fst_xorshift32 rng_after_numerals)


lemma xorshift32_from_31:
  "snd (xorshift32 31) = 8381406"
  "snd (xorshift32 8381406) = 2089805404"
  "snd (xorshift32 2089805404) = 2294344126"
  "snd (xorshift32 2294344126) = 723192805"
  "snd (xorshift32 723192805) = 110515222"
  by (simp_all add: xorshift32_def Let_def)

lemma xorshift32_from_32:
  "snd (xorshift32 32) = 8651874"
  "snd (xorshift32 8651874) = 2164820134"
  "snd (xorshift32 2164820134) = 2476479912"
  "snd (xorshift32 2476479912) = 873118396"
  "snd (xorshift32 873118396) = 150759762"
  by (simp_all add: xorshift32_def Let_def)

lemma rng_after_31:
  "rng_after 1 31 = 8381406" "rng_after 2 31 = 2089805404" "rng_after 3 31 = 2294344126"
  "rng_after 4 31 = 723192805" "rng_after 5 31 = 110515222"
  by (simp_all only: rng_after_numerals xorshift32_from_31)

lemma rng_after_32:
  "rng_after 1 32 = 8651874" "rng_after 2 32 = 2164820134" "rng_after 3 32 = 2476479912"
  "rng_after 4 32 = 873118396" "rng_after 5 32 = 150759762"
  by (simp_all only: rng_after_numerals xorshift32_from_32)

lemma tick_state_rng:
  "seed (tick_state 1 30) + ucast (frame_count (tick_state 1 30)) = 31"
  "seed (tick_state 2 30) + ucast (frame_count (tick_state 2 30)) = 32"
  by (simp_all add: tick_state_def default_state_def)

text \<open>
  Claim C3, as amended. The draws are consumed in a fixed order, but their number
  depends on the first check. When the first draw passes the 20% check, a second draw
  gives the new gradient type, the third and fourth give \<open>frequency\<close> and \<open>noise_scale\<close>,
  the fifth decides the inversion, and five draws are consumed. When it does not, no
  draw is made for the gradient type: the second and third draws give \<open>frequency\<close> and
  \<open>noise_scale\<close>, the fourth decides the inversion, and four draws are consumed.
\<close>

theorem evolve_draw_order:
  "(rng_after 1 (seed s + ucast (frame_count s)) mod 100 < 20 \<longrightarrow>
      gradient_type (fst (evolve s)) = ucast (rng_after 2 (seed s + ucast (frame_count s)) mod 10)
    \<and> frequency (fst (evolve s))
        = 0.5 + real (unat (rng_after 3 (seed s + ucast (frame_count s)) mod 100)) / 50
    \<and> noise_scale (fst (evolve s))
        = real (unat (rng_after 4 (seed s + ucast (frame_count s)) mod 50)) / 1000
    \<and> invert (fst (evolve s))
        = (if rng_after 5 (seed s + ucast (frame_count s)) mod 100 < 10
           then \<not> invert s else invert s)
    \<and> snd (evolve s) = rng_after 5 (seed s + ucast (frame_count s)))
   \<and> (\<not> rng_after 1 (seed s + ucast (frame_count s)) mod 100 < 20 \<longrightarrow>
      gradient_type (fst (evolve s)) = gradient_type s
    \<and> frequency (fst (evolve s))
        = 0.5 + real (unat (rng_after 2 (seed s + ucast (frame_count s)) mod 100)) / 50
    \<and> noise_scale (fst (evolve s))
        = real (unat (rng_after 3 (seed s + ucast (frame_count s)) mod 50)) / 1000
    \<and> invert (fst (evolve s))
        = (if rng_after 4 (seed s + ucast (frame_count s)) mod 100 < 10
           then \<not> invert s else invert s)
    \<and> snd (evolve s) = rng_after 4 (seed s + ucast (frame_count s)))"
  by (simp add: evolve_unfold Let_def)

theorem evolve_draw_order_witness:
  "rng_after 1 (seed (tick_state 1 30) + ucast (frame_count (tick_state 1 30))) mod 100 < 20
   \<and> gradient_type (fst (evolve (tick_state 1 30))) = 4
   \<and> frequency (fst (evolve (tick_state 1 30))) = 1.02
   \<and> noise_scale (fst (evolve (tick_state 1 30))) = 0.005
   \<and> snd (evolve (tick_state 1 30)) = 110515222
   \<and> \<not> rng_after 1 (seed (tick_state 2 30) + ucast (frame_count (tick_state 2 30))) mod 100 < 20
   \<and> gradient_type (fst (evolve (tick_state 2 30))) = 0
   \<and> frequency (fst (evolve (tick_state 2 30))) = 1.18
   \<and> noise_scale (fst (evolve (tick_state 2 30))) = 0.012
   \<and> snd (evolve (tick_state 2 30)) = 873118396"
  using evolve_draw_order [of "tick_state 1 30"] evolve_draw_order [of "tick_state 2 30"]
  by (simp add: tick_state_rng rng_after_31 rng_after_32 xorshift32_from_31
      xorshift32_from_32 tick_state_fields)

text \<open>
  Claim C3 as stated fails. With seed 1 at frame 30 the block consumes five draws and
  \<open>frequency\<close> comes from the third; with seed 2 at frame 30 it consumes four draws and
  \<open>frequency\<close> comes from the second. Neither the number of draws nor the draw that
  gives \<open>frequency\<close> is the same in the two runs.
\<close>

theorem evolve_draw_count_counterexample:
  "snd (evolve (tick_state 1 30)) = rng_after 5 31
   \<and> snd (evolve (tick_state 1 30)) \<noteq> rng_after 4 31
   \<and> snd (evolve (tick_state 2 30)) = rng_after 4 32
   \<and> snd (evolve (tick_state 2 30)) \<noteq> rng_after 5 32
   \<and> frequency (fst (evolve (tick_state 1 30))) = 0.5 + real (unat (rng_after 3 31 mod 100)) / 50
   \<and> frequency (fst (evolve (tick_state 1 30))) \<noteq> 0.5 + real (unat (rng_after 2 31 mod 100)) / 50
   \<and> frequency (fst (evolve (tick_state 2 30))) = 0.5 + real (unat (rng_after 2 32 mod 100)) / 50
   \<and> frequency (fst (evolve (tick_state 2 30))) \<noteq> 0.5 + real (unat (rng_after 3 32 mod 100)) / 50"
  by (simp add: evolve_unfold tick_state_rng rng_after_31 rng_after_32 xorshift32_from_31
      xorshift32_from_32 Let_def)

text \<open>
  Claim C9. On an evolution tick whose stream seed \<open>seed + frame_count\<close> is 0 modulo
  \<open>2^32\<close>, every draw is 0, both checks pass, and the frame sets \<open>gradient_type\<close> to 0,
  \<open>frequency\<close> to 0.5 and \<open>noise_scale\<close> to 0 and toggles \<open>invert\<close>.
\<close>

theorem evolve_zero_stream:
  assumes "unat (frame_count s + 1) mod 30 = 0"
    and "seed s + ucast (frame_count s + 1) = 0"
  shows "gradient_type (generate_frame s) = 0
    \<and> frequency (generate_frame s) = 0.5
    \<and> noise_scale (generate_frame s) = 0
    \<and> invert (generate_frame s) = (\<not> invert s)
    \<and> xorshift32 0 = (0, 0)
    \<and> rng_after n (seed s + ucast (frame_count s + 1)) = 0
    \<and> rng_after 1 (seed s + ucast (frame_count s + 1)) mod 100 < 20
    \<and> rng_after 5 (seed s + ucast (frame_count s + 1)) mod 100 < 10"
proof -
  define t where "t = (apply_dither (gradient_rows 0 s))\<lparr>frame_count := frame_count s + 1\<rparr>"
  have sd: "seed t = seed s" and fc: "frame_count t = frame_count s + 1"
    and iv: "invert t = invert s"
    by (simp_all add: t_def apply_dither_def gradient_rows_fields)
  then have "seed t + ucast (frame_count t) = 0"
    using assms(2) by simp
  from evolve_zero [OF this]
  have "fst (evolve t) = t\<lparr>gradient_type := 0, frequency := 0.5, noise_scale := 0,
      invert := \<not> invert t\<rparr>"
    by blast
  moreover have "generate_frame s = fst (evolve t)"
    unfolding t_def by (rule generate_frame_tick [OF assms(1)])
  ultimately show ?thesis
    using assms(2) iv by (simp add: rng_after_zero xorshift32_zero)
qed

theorem evolve_zero_stream_witness:
  "unat (frame_count (tick_state 4294967266 29) + 1) mod 30 = 0
   \<and> seed (tick_state 4294967266 29) + ucast (frame_count (tick_state 4294967266 29) + 1) = 0
   \<and> gradient_type (generate_frame (tick_state 4294967266 29)) = 0
   \<and> frequency (generate_frame (tick_state 4294967266 29)) = 0.5
   \<and> noise_scale (generate_frame (tick_state 4294967266 29)) = 0
   \<and> invert (generate_frame (tick_state 4294967266 29)) = True"
proof -
  have a: "unat (frame_count (tick_state 4294967266 29) + 1) mod 30 = 0"
    by (simp add: tick_state_fields)
  have b: "seed (tick_state 4294967266 29) + ucast (frame_count (tick_state 4294967266 29) + 1) = 0"
    by (simp add: tick_state_fields)
  from evolve_zero_stream [OF a b, of 0] a b show ?thesis
    by (simp add: tick_state_fields)
qed

section \<open>Parameter ranges\<close>

lemma unat_mod_100: "unat ((w :: u32) mod 100) < 100"
  by (simp add: unat_mod)

lemma unat_mod_50: "unat ((w :: u32) mod 50) < 50"
  by (simp add: unat_mod)

lemma real_unat_mod_100:
  "0 \<le> real (unat ((w :: u32) mod 100)) \<and> real (unat (w mod 100)) \<le> 99"
proof -
  have "unat (w mod 100) \<le> 99" using unat_mod_100 [of w] by simp
  then have "real (unat (w mod 100)) \<le> real 99" by (simp only: of_nat_le_iff)
  moreover have "0 \<le> real (unat (w mod 100))" by (rule of_nat_0_le_iff)
  ultimately show ?thesis by simp
qed

lemma real_unat_mod_50:
  "0 \<le> real (unat ((w :: u32) mod 50)) \<and> real (unat (w mod 50)) \<le> 49"
proof -
  have "unat (w mod 50) \<le> 49" using unat_mod_50 [of w] by simp
  then have "real (unat (w mod 50)) \<le> real 49" by (simp only: of_nat_le_iff)
  moreover have "0 \<le> real (unat (w mod 50))" by (rule of_nat_0_le_iff)
  ultimately show ?thesis by simp
qed

lemma frequency_sample_range:
  "0.5 \<le> 0.5 + real (unat ((w :: u32) mod 100)) / 50
   \<and> 0.5 + real (unat (w mod 100)) / 50 < 2.5"
  using real_unat_mod_100 [of w] by simp

lemma noise_sample_range:
  "0 \<le> real (unat ((w :: u32) mod 50)) / 1000 \<and> real (unat (w mod 50)) / 1000 < 0.05"
  using real_unat_mod_50 [of w] by simp

lemma evolve_frequency_range:
  "0.5 \<le> frequency (fst (evolve s)) \<and> frequency (fst (evolve s)) < 2.5"
  using frequency_sample_range by (simp add: evolve_unfold Let_def)

lemma evolve_noise_range:
  "0 \<le> noise_scale (fst (evolve s)) \<and> noise_scale (fst (evolve s)) < 0.05"
  using noise_sample_range by (simp add: evolve_unfold Let_def)

lemma param_inv_generate_frame:
  assumes "param_inv s"
  shows "param_inv (generate_frame s)"
proof (cases "unat (frame_count s + 1) mod 30 = 0")
  case True
  define t where "t = fst (evolve ((apply_dither (gradient_rows 0 s))\<lparr>frame_count := frame_count s + 1\<rparr>))"
  have "0.5 \<le> frequency t" "frequency t < 2.5" "0 \<le> noise_scale t" "noise_scale t < 0.05"
    unfolding t_def using evolve_frequency_range evolve_noise_range by blast+
  then have "param_inv t" by (simp add: param_inv_def)
  then show ?thesis by (simp add: generate_frame_tick [OF True] t_def)
next
  case False
  with assms show ?thesis
    by (simp add: param_inv_def generate_frame_no_tick)
qed

lemma param_inv_input_callback:
  assumes "param_inv s"
  shows "param_inv (input_callback input_event tick s)"
proof (cases "ev_type input_event = InputTypePress")
  case False
  with assms show ?thesis by (simp add: input_callback_def)
next
  case True
  have f: "0.5 \<le> 0.5 + real (unat (tick mod 100)) / 50"
    "0.5 + real (unat (tick mod 100)) / 50 < 2.5"
    using frequency_sample_range [of tick] by blast+
  show ?thesis
  proof (cases "ev_key input_event")
    case InputKeyOk
    with True assms f show ?thesis
      by (simp add: input_callback_def param_inv_def Let_def)
  next
    case InputKeyLeft
    with True assms show ?thesis
      by (simp add: input_callback_def param_inv_def max_def)
  next
    case InputKeyRight
    with True assms show ?thesis
      by (simp add: input_callback_def param_inv_def min_def)
  qed (use True assms in \<open>simp_all add: input_callback_def param_inv_def\<close>)
qed

lemma param_inv_step: "param_inv s \<Longrightarrow> param_inv (step e s)"
  by (cases e) (simp_all add: param_inv_generate_frame param_inv_input_callback)

lemma param_inv_run: "param_inv s \<Longrightarrow> param_inv (run evs s)"
  unfolding run_def
  by (induction evs arbitrary: s) (simp_all add: param_inv_step)

lemma param_inv_default: "param_inv (default_state tick px)"
  by (simp add: param_inv_def default_state_def)

text \<open>
  Claim C5. The start-up parameters are in range; every run of frames and input events
  after start-up ends in range; \<open>generate_frame\<close> and \<open>input_callback\<close> each keep the
  parameters in range; and an evolution tick resamples \<open>frequency\<close> within \<open>[0.5, 2.5)\<close>
  and \<open>noise_scale\<close> within \<open>[0, 0.05)\<close>.
\<close>

theorem parameters_stay_in_range:
  "param_inv (default_state tick px)
   \<and> param_inv (run evs (flipper_gen_app_alloc tick px))
   \<and> (param_inv s \<longrightarrow> param_inv (generate_frame s))
   \<and> (param_inv s \<longrightarrow> param_inv (input_callback input_event tick' s))
   \<and> (unat (frame_count s + 1) mod 30 = 0 \<longrightarrow>
        0.5 \<le> frequency (generate_frame s) \<and> frequency (generate_frame s) < 2.5
        \<and> 0 \<le> noise_scale (generate_frame s) \<and> noise_scale (generate_frame s) < 0.05)"
proof (intro conjI impI)
  show "param_inv (default_state tick px)" by (rule param_inv_default)
  show "param_inv (run evs (flipper_gen_app_alloc tick px))"
    unfolding flipper_gen_app_alloc_def
    by (intro param_inv_run param_inv_generate_frame param_inv_default)
  show "param_inv (generate_frame s)" if "param_inv s"
    using that by (rule param_inv_generate_frame)
  show "param_inv (input_callback input_event tick' s)" if "param_inv s"
    using that by (rule param_inv_input_callback)
next
  assume t: "unat (frame_count s + 1) mod 30 = 0"
  show "0.5 \<le> frequency (generate_frame s)" "frequency (generate_frame s) < 2.5"
    "0 \<le> noise_scale (generate_frame s)" "noise_scale (generate_frame s) < 0.05"
    unfolding generate_frame_tick [OF t]
    using evolve_frequency_range evolve_noise_range by blast+
qed

theorem parameters_stay_in_range_witness:
  "param_inv (tick_state 42 29)
   \<and> param_inv (generate_frame (tick_state 42 29))
   \<and> param_inv (input_callback \<lparr>ev_type = InputTypePress, ev_key = InputKeyRight\<rparr> 7
        (tick_state 42 29))
   \<and> unat (frame_count (tick_state 42 29) + 1) mod 30 = 0
   \<and> 0.5 \<le> frequency (generate_frame (tick_state 42 29))
   \<and> frequency (generate_frame (tick_state 42 29)) < 2.5
   \<and> 0 \<le> noise_scale (generate_frame (tick_state 42 29))
   \<and> noise_scale (generate_frame (tick_state 42 29)) < 0.05"
proof -
  have i: "param_inv (tick_state 42 29)"
    by (simp add: param_inv_def tick_state_fields)
  have t: "unat (frame_count (tick_state 42 29) + 1) mod 30 = 0"
    by (simp add: tick_state_fields)
  from parameters_stay_in_range [of 42 "[]" "[]" "tick_state 42 29"
      "\<lparr>ev_type = InputTypePress, ev_key = InputKeyRight\<rparr>" 7] i t
  show ?thesis by simp
qed

section \<open>The field evaluator\<close>

lemma gradient_value_range: "0 \<le> gradient_value x y s \<and> gradient_value x y s \<le> 1"
  by (simp add: gradient_value_def Let_def)

lemma float_to_u8_in_range:
  assumes "0 \<le> r" and "r \<le> 255"
  shows "uint (float_to_u8 r) = \<lfloor>r\<rfloor>"
proof -
  have "0 \<le> \<lfloor>r\<rfloor>" using assms(1) by simp
  moreover have "\<lfloor>r\<rfloor> \<le> 255" using assms(2) by (simp add: floor_le_iff)
  ultimately have "\<lfloor>r\<rfloor> mod 256 = \<lfloor>r\<rfloor>" by simp
  then show ?thesis
    using assms(1) by (simp add: float_to_u8_def c_trunc_def uint_word_of_int)
qed

text \<open>
  Claim C6. For a pixel of the raster, any gradient type, \<open>frequency \<ge> 0\<close> and
  \<open>noise_scale\<close> in \<open>[0, 1]\<close>, the value before the final conversion lies in \<open>[0, 1]\<close>, the
  inversion is applied to the clamped value, and \<open>generate_gradient\<close> returns the integer
  part of that value times 255, which lies in \<open>0 .. 255\<close>, so the conversion to
  \<open>uint8_t\<close> does not wrap.
\<close>

theorem generate_gradient_range:
  assumes "unat x < SCREEN_WIDTH" and "unat y < SCREEN_HEIGHT"
    and "0 \<le> frequency s" and "0 \<le> noise_scale s" and "noise_scale s \<le> 1"
  shows "0 \<le> gradient_value x y s \<and> gradient_value x y s \<le> 1
    \<and> gradient_value x y (s\<lparr>invert := True\<rparr>) = 1 - gradient_value x y (s\<lparr>invert := False\<rparr>)
    \<and> uint (generate_gradient x y s) = \<lfloor>gradient_value x y s * 255\<rfloor>
    \<and> 0 \<le> uint (generate_gradient x y s) \<and> uint (generate_gradient x y s) \<le> 255"
proof -
  have r: "0 \<le> gradient_value x y s" "gradient_value x y s \<le> 1"
    using gradient_value_range [of x y s] by blast+
  then have s: "0 \<le> gradient_value x y s * 255" "gradient_value x y s * 255 \<le> 255"
    by simp_all
  have u: "uint (generate_gradient x y s) = \<lfloor>gradient_value x y s * 255\<rfloor>"
    unfolding generate_gradient_def by (rule float_to_u8_in_range [OF s])
  have "0 \<le> \<lfloor>gradient_value x y s * 255\<rfloor>" using s(1) by simp
  moreover have "\<lfloor>gradient_value x y s * 255\<rfloor> \<le> 255" using s(2) by (simp add: floor_le_iff)
  moreover have "gradient_value x y (s\<lparr>invert := True\<rparr>)
      = 1 - gradient_value x y (s\<lparr>invert := False\<rparr>)"
    by (simp add: gradient_value_def gradient_switch_def Let_def)
  ultimately show ?thesis using r u by simp
qed

theorem generate_gradient_range_witness:
  "unat (64 :: u8) < SCREEN_WIDTH \<and> unat (0 :: u8) < SCREEN_HEIGHT
   \<and> 0 \<le> frequency ((tick_state 42 0)\<lparr>noise_scale := 0\<rparr>)
   \<and> 0 \<le> noise_scale ((tick_state 42 0)\<lparr>noise_scale := 0\<rparr>)
   \<and> noise_scale ((tick_state 42 0)\<lparr>noise_scale := 0\<rparr>) \<le> 1
   \<and> gradient_value 64 0 ((tick_state 42 0)\<lparr>noise_scale := 0\<rparr>) = 0.5
   \<and> uint (generate_gradient 64 0 ((tick_state 42 0)\<lparr>noise_scale := 0\<rparr>)) = 127"
proof -
  have h: "unat (64 :: u8) < SCREEN_WIDTH" "unat (0 :: u8) < SCREEN_HEIGHT"
    "0 \<le> frequency ((tick_state 42 0)\<lparr>noise_scale := 0\<rparr>)"
    "0 \<le> noise_scale ((tick_state 42 0)\<lparr>noise_scale := 0\<rparr>)"
    "noise_scale ((tick_state 42 0)\<lparr>noise_scale := 0\<rparr>) \<le> 1"
    by (simp_all add: SCREEN_WIDTH_def SCREEN_HEIGHT_def tick_state_fields)
  have v: "gradient_value 64 0 ((tick_state 42 0)\<lparr>noise_scale := 0\<rparr>) = 0.5"
    by (simp add: gradient_value_def gradient_switch_def Let_def tick_state_fields
        SCREEN_WIDTH_def)
  have "\<lfloor>(255 :: real) / 2\<rfloor> = 127"
    by (simp add: floor_eq_iff)
  with generate_gradient_range [OF h] h v show ?thesis
    by simp
qed

text \<open>
  Claim C10. For a \<open>gradient_type\<close> outside \<open>0 .. 9\<close> the \<open>switch\<close> takes its \<open>default\<close>
  branch and yields \<open>nx\<close>; the evaluator is total and returns exactly what it returns
  for gradient type 0, before and after the noise overlay, the clamp and the inversion.
\<close>

theorem gradient_default_branch:
  assumes "9 < gradient_type s"
  shows "gradient_switch x y s = real (unat x) / real SCREEN_WIDTH
    \<and> gradient_switch x y s = gradient_switch x y (s\<lparr>gradient_type := 0\<rparr>)
    \<and> gradient_value x y s = gradient_value x y (s\<lparr>gradient_type := 0\<rparr>)
    \<and> generate_gradient x y s = generate_gradient x y (s\<lparr>gradient_type := 0\<rparr>)"
proof -
  have ne: "gradient_type s \<noteq> 0" "gradient_type s \<noteq> 1" "gradient_type s \<noteq> 2"
    "gradient_type s \<noteq> 3" "gradient_type s \<noteq> 4" "gradient_type s \<noteq> 5"
    "gradient_type s \<noteq> 6" "gradient_type s \<noteq> 7" "gradient_type s \<noteq> 8"
    "gradient_type s \<noteq> 9"
    using assms by auto
  have a: "gradient_switch x y s = real (unat x) / real SCREEN_WIDTH"
    using ne by (simp add: gradient_switch_def Let_def)
  have b: "gradient_switch x y (s\<lparr>gradient_type := 0\<rparr>) = real (unat x) / real SCREEN_WIDTH"
    by (simp add: gradient_switch_def Let_def)
  have c: "gradient_value x y s = gradient_value x y (s\<lparr>gradient_type := 0\<rparr>)"
    by (simp add: gradient_value_def a b Let_def)
  show ?thesis
    by (simp add: a b c generate_gradient_def)
qed

theorem gradient_default_branch_witness:
  "9 < gradient_type ((tick_state 42 0)\<lparr>gradient_type := 200\<rparr>)
   \<and> gradient_switch 32 5 ((tick_state 42 0)\<lparr>gradient_type := 200\<rparr>) = 0.25
   \<and> generate_gradient 32 5 ((tick_state 42 0)\<lparr>gradient_type := 200\<rparr>)
       = generate_gradient 32 5 ((tick_state 42 0)\<lparr>gradient_type := 0\<rparr>)"
proof -
  have h: "9 < gradient_type ((tick_state 42 0)\<lparr>gradient_type := 200\<rparr>)"
    by simp
  from gradient_default_branch [OF h, of 32 5] h show ?thesis
    by (simp add: SCREEN_WIDTH_def)
qed

section \<open>Determinism of frame generation\<close>

lemma generate_gradient_same_params:
  assumes "same_params s t"
  shows "generate_gradient x y s = generate_gradient x y t"
proof -
  have e: "seed s = seed t" "gradient_type s = gradient_type t" "frequency s = frequency t"
    "noise_scale s = noise_scale t" "invert s = invert t"
    using assms by (simp_all add: same_params_def)
  show ?thesis
    unfolding generate_gradient_def gradient_value_def gradient_switch_def
    by (simp only: e)
qed

lemma agree_upto_pixel:
  assumes "agree_upto k s t" and "k < length (pixels s)"
  shows "agree_upto (Suc k)
           (s\<lparr>pixels := (pixels s)[k := generate_gradient x y s]\<rparr>)
           (t\<lparr>pixels := (pixels t)[k := generate_gradient x y t]\<rparr>)"
proof -
  have g: "generate_gradient x y s = generate_gradient x y t"
    using assms(1) by (simp add: agree_upto_def generate_gradient_same_params)
  have "(pixels s)[k := generate_gradient x y s] ! i = (pixels t)[k := generate_gradient x y t] ! i"
    if "i < Suc k" for i
  proof (cases "i = k")
    case True
    with assms g show ?thesis by (simp add: agree_upto_def)
  next
    case False
    with that have "i < k" by simp
    with assms(1) False show ?thesis by (simp add: agree_upto_def)
  qed
  with assms(1) show ?thesis
    by (simp add: agree_upto_def same_params_def)
qed

lemma gradient_cols_agree:
  assumes "agree_upto (y * SCREEN_WIDTH + x) s t" and "x \<le> SCREEN_WIDTH"
    and "y * SCREEN_WIDTH + SCREEN_WIDTH \<le> length (pixels s)"
  shows "agree_upto (y * SCREEN_WIDTH + SCREEN_WIDTH) (gradient_cols y x s) (gradient_cols y x t)"
  using assms
proof (induction y x s arbitrary: t rule: gradient_cols.induct)
  case (1 y x s)
  show ?case
  proof (cases "x < SCREEN_WIDTH")
    case True
    let ?s = "s\<lparr>pixels := (pixels s)
                [y * SCREEN_WIDTH + x := generate_gradient (of_nat x) (of_nat y) s]\<rparr>"
    let ?t = "t\<lparr>pixels := (pixels t)
                [y * SCREEN_WIDTH + x := generate_gradient (of_nat x) (of_nat y) t]\<rparr>"
    have idx: "y * SCREEN_WIDTH + x < length (pixels s)"
      using True "1.prems"(3) by simp
    have "agree_upto (Suc (y * SCREEN_WIDTH + x)) ?s ?t"
      using "1.prems"(1) idx by (rule agree_upto_pixel)
    then have "agree_upto (y * SCREEN_WIDTH + (x + 1)) ?s ?t" by simp
    moreover have "x + 1 \<le> SCREEN_WIDTH" using True by simp
    moreover have "y * SCREEN_WIDTH + SCREEN_WIDTH \<le> length (pixels ?s)"
      using "1.prems"(3) by simp
    ultimately have "agree_upto (y * SCREEN_WIDTH + SCREEN_WIDTH)
        (gradient_cols y (x + 1) ?s) (gradient_cols y (x + 1) ?t)"
      by (rule "1.IH" [OF True])
    then show ?thesis
      using True by (simp add: gradient_cols.simps [of y x s] gradient_cols.simps [of y x t])
  next
    case False
    then have "gradient_cols y x s = s" "gradient_cols y x t = t"
      by (simp_all add: gradient_cols.simps [of y x s] gradient_cols.simps [of y x t])
    moreover from False "1.prems"(2) have "x = SCREEN_WIDTH" by simp
    ultimately show ?thesis using "1.prems"(1) by simp
  qed
qed

lemma gradient_rows_agree:
  assumes "agree_upto (y * SCREEN_WIDTH) s t" and "y \<le> SCREEN_HEIGHT"
    and "length (pixels s) = SCREEN_WIDTH * SCREEN_HEIGHT"
  shows "agree_upto (SCREEN_HEIGHT * SCREEN_WIDTH) (gradient_rows y s) (gradient_rows y t)"
  using assms
proof (induction y s arbitrary: t rule: gradient_rows.induct)
  case (1 y s)
  show ?case
  proof (cases "y < SCREEN_HEIGHT")
    case True
    have fits: "y * SCREEN_WIDTH + SCREEN_WIDTH \<le> length (pixels s)"
      using True "1.prems"(3) by (simp add: SCREEN_WIDTH_def SCREEN_HEIGHT_def)
    have "agree_upto (y * SCREEN_WIDTH + SCREEN_WIDTH) (gradient_cols y 0 s) (gradient_cols y 0 t)"
      using "1.prems"(1) fits by (intro gradient_cols_agree) simp_all
    then have "agree_upto ((y + 1) * SCREEN_WIDTH) (gradient_cols y 0 s) (gradient_cols y 0 t)"
      by (simp add: add.commute)
    moreover have "y + 1 \<le> SCREEN_HEIGHT" using True by simp
    moreover have "length (pixels (gradient_cols y 0 s)) = SCREEN_WIDTH * SCREEN_HEIGHT"
      using "1.prems"(3) by (simp add: gradient_cols_fields)
    ultimately have "agree_upto (SCREEN_HEIGHT * SCREEN_WIDTH)
        (gradient_rows (y + 1) (gradient_cols y 0 s)) (gradient_rows (y + 1) (gradient_cols y 0 t))"
      by (rule "1.IH" [OF True])
    then show ?thesis
      using True by (simp add: gradient_rows.simps [of y s] gradient_rows.simps [of y t])
  next
    case False
    then have "gradient_rows y s = s" "gradient_rows y t = t"
      by (simp_all add: gradient_rows.simps [of y s] gradient_rows.simps [of y t])
    moreover from False "1.prems"(2) have "y = SCREEN_HEIGHT" by simp
    ultimately show ?thesis using "1.prems"(1) by simp
  qed
qed

lemma gradient_rows_deterministic:
  assumes "same_params s t"
    and "length (pixels s) = SCREEN_WIDTH * SCREEN_HEIGHT"
    and "length (pixels t) = SCREEN_WIDTH * SCREEN_HEIGHT"
  shows "pixels (gradient_rows 0 s) = pixels (gradient_rows 0 t)"
proof -
  have "agree_upto (0 * SCREEN_WIDTH) s t"
    using assms by (simp add: agree_upto_def)
  then have a: "agree_upto (SCREEN_HEIGHT * SCREEN_WIDTH) (gradient_rows 0 s) (gradient_rows 0 t)"
    using assms(2) by (intro gradient_rows_agree) simp_all
  have "length (pixels (gradient_rows 0 s)) = SCREEN_HEIGHT * SCREEN_WIDTH"
    using assms(2) by (simp add: gradient_rows_fields mult.commute)
  with a show ?thesis
    by (intro nth_equalityI) (simp_all add: agree_upto_def)
qed

lemma same_params_evolve:
  assumes "same_params s t"
  shows "same_params (fst (evolve s)) (fst (evolve t))"
  using assms by (simp add: same_params_def evolve_unfold Let_def)

lemma length_dither_cols: "length (dither_cols y x px) = length px"
proof (induction y x px rule: dither_cols.induct)
  case (1 y x px)
  then show ?case
    by (cases "x < SCREEN_WIDTH") (simp_all add: dither_cols.simps [of y x px])
qed

lemma length_dither_rows: "length (dither_rows y px) = length px"
proof (induction y px rule: dither_rows.induct)
  case (1 y px)
  then show ?case
    by (cases "y < SCREEN_HEIGHT")
      (simp_all add: dither_rows.simps [of y px] length_dither_cols)
qed

lemma generate_frame_deterministic:
  assumes "same_params s t"
    and "length (pixels s) = SCREEN_WIDTH * SCREEN_HEIGHT"
    and "length (pixels t) = SCREEN_WIDTH * SCREEN_HEIGHT"
  shows "same_params (generate_frame s) (generate_frame t)
    \<and> pixels (generate_frame s) = pixels (generate_frame t)
    \<and> length (pixels (generate_frame s)) = SCREEN_WIDTH * SCREEN_HEIGHT
    \<and> length (pixels (generate_frame t)) = SCREEN_WIDTH * SCREEN_HEIGHT"
proof -
  define s1 where "s1 = (apply_dither (gradient_rows 0 s))\<lparr>frame_count := frame_count s + 1\<rparr>"
  define t1 where "t1 = (apply_dither (gradient_rows 0 t))\<lparr>frame_count := frame_count t + 1\<rparr>"
  have px: "pixels s1 = pixels t1"
    using gradient_rows_deterministic [OF assms]
    by (simp add: s1_def t1_def apply_dither_def)
  have sp: "same_params s1 t1"
    using assms(1)
    by (simp add: s1_def t1_def apply_dither_def same_params_def gradient_rows_fields)
  have len: "length (pixels s1) = SCREEN_WIDTH * SCREEN_HEIGHT"
    using assms(2)
    by (simp add: s1_def apply_dither_def length_dither_rows gradient_rows_fields)
  have fc: "frame_count s1 = frame_count t1"
    using sp by (simp add: same_params_def)
  have gs: "generate_frame s = (if unat (frame_count s1) mod 30 = 0 then fst (evolve s1) else s1)"
    by (simp add: generate_frame_def Let_def s1_def apply_dither_def gradient_rows_fields)
  have gt: "generate_frame t = (if unat (frame_count t1) mod 30 = 0 then fst (evolve t1) else t1)"
    by (simp add: generate_frame_def Let_def t1_def apply_dither_def gradient_rows_fields)
  show ?thesis
    using px sp len fc same_params_evolve [OF sp]
    by (simp add: gs gt evolve_fields)
qed

text \<open>
  Claim C8. Two runs that start from the same generation parameters, whatever their
  rasters held before, and make the same number of \<open>generate_frame\<close> calls have the same
  parameters after every call and the same raster after every call.
\<close>

theorem generate_frame_runs_deterministic:
  assumes "same_params s t"
    and "length (pixels s) = SCREEN_WIDTH * SCREEN_HEIGHT"
    and "length (pixels t) = SCREEN_WIDTH * SCREEN_HEIGHT"
  shows "same_params ((generate_frame ^^ n) s) ((generate_frame ^^ n) t)
    \<and> (0 < n \<longrightarrow> pixels ((generate_frame ^^ n) s) = pixels ((generate_frame ^^ n) t))"
proof -
  have "same_params ((generate_frame ^^ n) s) ((generate_frame ^^ n) t)
    \<and> length (pixels ((generate_frame ^^ n) s)) = SCREEN_WIDTH * SCREEN_HEIGHT
    \<and> length (pixels ((generate_frame ^^ n) t)) = SCREEN_WIDTH * SCREEN_HEIGHT
    \<and> (0 < n \<longrightarrow> pixels ((generate_frame ^^ n) s) = pixels ((generate_frame ^^ n) t))"
  proof (induction n)
    case 0
    with assms show ?case by simp
  next
    case (Suc n)
    then have a: "same_params ((generate_frame ^^ n) s) ((generate_frame ^^ n) t)"
      and b: "length (pixels ((generate_frame ^^ n) s)) = SCREEN_WIDTH * SCREEN_HEIGHT"
      and c: "length (pixels ((generate_frame ^^ n) t)) = SCREEN_WIDTH * SCREEN_HEIGHT"
      by blast+
    from generate_frame_deterministic [OF a b c] show ?case
      by simp
  qed
  then show ?thesis by blast
qed

theorem generate_frame_runs_deterministic_witness:
  "same_params (default_state 42 (replicate (SCREEN_WIDTH * SCREEN_HEIGHT) 0))
               (default_state 42 (replicate (SCREEN_WIDTH * SCREEN_HEIGHT) 255))
   \<and> length (pixels (default_state 42 (replicate (SCREEN_WIDTH * SCREEN_HEIGHT) 0)))
        = SCREEN_WIDTH * SCREEN_HEIGHT
   \<and> length (pixels (default_state 42 (replicate (SCREEN_WIDTH * SCREEN_HEIGHT) 255)))
        = SCREEN_WIDTH * SCREEN_HEIGHT
   \<and> pixels ((generate_frame ^^ 3) (default_state 42 (replicate (SCREEN_WIDTH * SCREEN_HEIGHT) 0)))
       = pixels ((generate_frame ^^ 3)
           (default_state 42 (replicate (SCREEN_WIDTH * SCREEN_HEIGHT) 255)))"
proof -
  have a: "same_params (default_state 42 (replicate (SCREEN_WIDTH * SCREEN_HEIGHT) 0))
               (default_state 42 (replicate (SCREEN_WIDTH * SCREEN_HEIGHT) 255))"
    by (simp add: same_params_def default_state_def)
  have b: "length (pixels (default_state 42 (replicate (SCREEN_WIDTH * SCREEN_HEIGHT) 0)))
        = SCREEN_WIDTH * SCREEN_HEIGHT"
    by (simp add: default_state_def)
  have c: "length (pixels (default_state 42 (replicate (SCREEN_WIDTH * SCREEN_HEIGHT) 255)))
        = SCREEN_WIDTH * SCREEN_HEIGHT"
    by (simp add: default_state_def)
  from generate_frame_runs_deterministic [OF a b c, of 3] a b c show ?thesis
    by simp
qed

end
